theory Spec2Isabelle
  imports Main "HOL-Library.Char_ord" "HOL-Library.Word"
begin

section \<open>Extension names\<close>

text \<open>
  \<^verbatim>\<open>IsAsciiDigit\<close> and \<^verbatim>\<open>IsAsciiAlpha\<close> come from Chromium's \<^verbatim>\<open>base/string_util.h\<close>, which
  is a library header and not part of the sources: the ASCII digits \<^verbatim>\<open>0\<close> to \<^verbatim>\<open>9\<close>
  and the ASCII letters \<^verbatim>\<open>A\<close> to \<^verbatim>\<open>Z\<close>, \<^verbatim>\<open>a\<close> to \<^verbatim>\<open>z\<close>. A \<^verbatim>\<open>char\<close> is a byte, as
  \<^typ>\<open>char\<close> is.
\<close>

definition IsAsciiDigit :: "char \<Rightarrow> bool" where
  "IsAsciiDigit c = (CHR ''0'' \<le> c \<and> c \<le> CHR ''9'')"

definition IsAsciiAlpha :: "char \<Rightarrow> bool" where
  "IsAsciiAlpha c =
     ((CHR ''A'' \<le> c \<and> c \<le> CHR ''Z'') \<or> (CHR ''a'' \<le> c \<and> c \<le> CHR ''z''))"

text \<open>
  \<^verbatim>\<open>ValidateExtensionName\<close> (xwalk_extension_service.cc, lines 48 to 75). The
  \<^verbatim>\<open>for\<close> loop over the characters is the recursion \<open>ValidateExtensionName_loop\<close>,
  which carries the two flags \<^verbatim>\<open>dot_allowed\<close> and \<^verbatim>\<open>digit_or_underscore_allowed\<close>;
  every \<^verbatim>\<open>return false\<close> inside the loop is a branch that ends in \<open>False\<close>, and the
  value after the loop is \<^verbatim>\<open>dot_allowed\<close>.
\<close>

fun ValidateExtensionName_loop :: "bool \<Rightarrow> bool \<Rightarrow> string \<Rightarrow> bool" where
  "ValidateExtensionName_loop dot_allowed digit_or_underscore_allowed [] = dot_allowed"
| "ValidateExtensionName_loop dot_allowed digit_or_underscore_allowed (c # cs) =
     (if IsAsciiDigit c then
        (if \<not> digit_or_underscore_allowed then False
         else ValidateExtensionName_loop dot_allowed digit_or_underscore_allowed cs)
      else if c = CHR ''_'' then
        (if \<not> digit_or_underscore_allowed then False
         else ValidateExtensionName_loop dot_allowed digit_or_underscore_allowed cs)
      else if c = CHR ''.'' then
        (if \<not> dot_allowed then False
         else ValidateExtensionName_loop False False cs)
      else if IsAsciiAlpha c then ValidateExtensionName_loop True True cs
      else False)"

definition ValidateExtensionName :: "string \<Rightarrow> bool" where
  "ValidateExtensionName extension_name =
     ValidateExtensionName_loop False False extension_name"

text \<open>
  The grammar of the specification, written from its words and independently of the
  loop: a name is a non-empty sequence of segments joined by single dots; a segment
  starts with an ASCII letter and continues with ASCII letters, ASCII digits or
  underscores.
\<close>

definition segment_char :: "char \<Rightarrow> bool" where
  "segment_char c = (IsAsciiAlpha c \<or> IsAsciiDigit c \<or> c = CHR ''_'')"

fun is_segment :: "string \<Rightarrow> bool" where
  "is_segment [] = False"
| "is_segment (c # cs) = (IsAsciiAlpha c \<and> list_all segment_char cs)"

fun join_dots :: "string list \<Rightarrow> string" where
  "join_dots [] = []"
| "join_dots [seg] = seg"
| "join_dots (seg # next_seg # segs) = seg @ CHR ''.'' # join_dots (next_seg # segs)"

definition dotted_name :: "string \<Rightarrow> bool" where
  "dotted_name s =
     (\<exists>segs. segs \<noteq> [] \<and> list_all is_segment segs \<and> s = join_dots segs)"

section \<open>The extension service\<close>

text \<open>
  The service holds pointers to extensions. An extension is modelled by the values the
  service reads from it, \<^verbatim>\<open>name()\<close> and \<^verbatim>\<open>GetJavaScriptAPI()\<close>, together with the
  address of the object, which tells two extension objects of equal content apart.
\<close>

record XWalkExtension =
  address :: nat
  name :: string
  GetJavaScriptAPI :: string

type_synonym RenderProcessHost = nat

type_synonym WebContents = nat

record Runtime =
  web_contents :: WebContents

text \<open>
  Modelled from the spec: the type \<^verbatim>\<open>ExtensionMap\<close> of the field \<^verbatim>\<open>extensions_\<close>. It
  is declared in the header xwalk_extension_service.h, which is not among the sources;
  the member functions use it through \<^verbatim>\<open>find\<close> compared with \<^verbatim>\<open>end()\<close>,
  \<^verbatim>\<open>operator[]\<close> and iteration from \<^verbatim>\<open>begin()\<close> over pairs read with \<^verbatim>\<open>it->second\<close>,
  which fixes what a key maps to and leaves the order of the iteration to the
  declaration. The spec (section 3) has the registry as a mapping from name to
  extension, with unique names, insertion-ordered for a deterministic announcement
  order, and (section 4.2) its enumeration in registration order. So the map is an
  association list in the order of the first insertion of each key:
  \<open>ExtensionMap_find\<close> is \<^verbatim>\<open>extensions_.find(k)\<close> (\<open>None\<close> for \<^verbatim>\<open>end()\<close>), and
  \<open>ExtensionMap_assign\<close> is \<^verbatim>\<open>extensions_[k] = v\<close>, which replaces the value of a key
  that is present where it stands and adds a new key behind the others.
\<close>

type_synonym ExtensionMap = "(string \<times> XWalkExtension) list"

fun ExtensionMap_find :: "string \<Rightarrow> ExtensionMap \<Rightarrow> XWalkExtension option" where
  "ExtensionMap_find k [] = None"
| "ExtensionMap_find k ((k', v) # m) = (if k = k' then Some v else ExtensionMap_find k m)"

fun ExtensionMap_assign :: "string \<Rightarrow> XWalkExtension \<Rightarrow> ExtensionMap \<Rightarrow> ExtensionMap" where
  "ExtensionMap_assign k v [] = [(k, v)]"
| "ExtensionMap_assign k v ((k', v') # m) =
     (if k = k' then (k, v) # m else (k', v') # ExtensionMap_assign k v m)"

text \<open>
  The fields of \<^verbatim>\<open>XWalkExtensionService\<close> that the member functions read and write:
  \<^verbatim>\<open>extensions_\<close> and \<^verbatim>\<open>render_process_host_\<close> (\<open>None\<close> for \<^verbatim>\<open>NULL\<close>). A
  content-process-created event carries the process that was created, never \<^verbatim>\<open>NULL\<close>.
\<close>

record XWalkExtensionService =
  extensions :: ExtensionMap
  render_process_host :: "RenderProcessHost option"

text \<open>
  What a member function does to the world outside the service, in the order in which
  it does it: a line of the host log, a message sent to a content process
  (\<^verbatim>\<open>XWalkViewMsg_RegisterExtension\<close> with the name and the JavaScript API), the creation
  of the handler of a web contents and the call that hands it the service, and a runner
  created for an extension and attached to a handler (named by its web contents) under a
  frame id.
\<close>

datatype effect =
    LOG_WARNING string
  | Send RenderProcessHost string string
  | CreateForWebContents WebContents
  | set_extension_service WebContents
  | AttachExtensionRunner WebContents "64 word" XWalkExtension

text \<open>\<^verbatim>\<open>CHECK(condition)\<close> ends the process when the condition is false.\<close>

datatype fatal = CHECK_failed

text \<open>
  The constructor (lines 27 to 37), with no test callback installed: no extension, no
  content process.
\<close>

definition XWalkExtensionService_new :: XWalkExtensionService where
  "XWalkExtensionService_new = \<lparr>extensions = [], render_process_host = None\<rparr>"

text \<open>\<^verbatim>\<open>RegisterExtension\<close> (lines 79 to 95).\<close>

definition RegisterExtension ::
  "XWalkExtension \<Rightarrow> XWalkExtensionService \<Rightarrow>
     fatal + (bool \<times> XWalkExtensionService \<times> effect list)" where
  "RegisterExtension extension s =
     (if render_process_host s \<noteq> None then Inl CHECK_failed
      else if ExtensionMap_find (name extension) (extensions s) \<noteq> None then
        Inr (False, s, [])
      else if \<not> ValidateExtensionName (name extension) then
        Inr (False, s,
          [LOG_WARNING (''Ignoring extension with invalid name: '' @ name extension)])
      else
        Inr (True,
          s\<lparr>extensions := ExtensionMap_assign (name extension) extension (extensions s)\<rparr>,
          []))"

text \<open>\<^verbatim>\<open>RegisterExtensionsForNewHost\<close> (lines 142 to 150): the loop over the map.\<close>

fun RegisterExtensionsForNewHost_loop :: "RenderProcessHost \<Rightarrow> ExtensionMap \<Rightarrow> effect list" where
  "RegisterExtensionsForNewHost_loop host [] = []"
| "RegisterExtensionsForNewHost_loop host ((k, extension) # m) =
     Send host (name extension) (GetJavaScriptAPI extension) #
     RegisterExtensionsForNewHost_loop host m"

definition RegisterExtensionsForNewHost ::
  "RenderProcessHost \<Rightarrow> XWalkExtensionService \<Rightarrow> effect list" where
  "RegisterExtensionsForNewHost host s = RegisterExtensionsForNewHost_loop host (extensions s)"

text \<open>\<^verbatim>\<open>CreateWebContentsHandler\<close> (lines 152 to 158).\<close>

definition CreateWebContentsHandler :: "WebContents \<Rightarrow> effect list" where
  "CreateWebContentsHandler wc = [CreateForWebContents wc, set_extension_service wc]"

text \<open>
  \<^verbatim>\<open>OnRenderProcessHostCreated\<close> (lines 97 to 111). The list of runtimes is what
  \<^verbatim>\<open>RuntimeRegistry::Get()->runtimes()\<close> returns when the event is handled; the loop
  over it is \<open>attach_existing_runtimes\<close>.
\<close>

fun attach_existing_runtimes :: "Runtime list \<Rightarrow> effect list" where
  "attach_existing_runtimes [] = []"
| "attach_existing_runtimes (runtime # runtimes) =
     CreateWebContentsHandler (web_contents runtime) @ attach_existing_runtimes runtimes"

definition OnRenderProcessHostCreated ::
  "RenderProcessHost \<Rightarrow> Runtime list \<Rightarrow> XWalkExtensionService \<Rightarrow>
     XWalkExtensionService \<times> effect list" where
  "OnRenderProcessHostCreated host runtimes s =
     (if render_process_host s \<noteq> None then (s, [])
      else
        let s1 = s\<lparr>render_process_host := Some host\<rparr>;
            announcements = RegisterExtensionsForNewHost (the (render_process_host s1)) s1
        in (s1, announcements @ attach_existing_runtimes runtimes))"

text \<open>\<^verbatim>\<open>GetExtensionForName\<close> (lines 113 to 119); \<open>None\<close> is \<^verbatim>\<open>NULL\<close>.\<close>

definition GetExtensionForName ::
  "string \<Rightarrow> XWalkExtensionService \<Rightarrow> XWalkExtension option \<times> XWalkExtensionService" where
  "GetExtensionForName k s = (ExtensionMap_find k (extensions s), s)"

text \<open>\<^verbatim>\<open>CreateRunnersForHandler\<close> (lines 121 to 129): the loop over the map.\<close>

fun CreateRunnersForHandler_loop :: "WebContents \<Rightarrow> 64 word \<Rightarrow> ExtensionMap \<Rightarrow> effect list" where
  "CreateRunnersForHandler_loop handler frame_id [] = []"
| "CreateRunnersForHandler_loop handler frame_id ((k, extension) # m) =
     AttachExtensionRunner handler frame_id extension #
     CreateRunnersForHandler_loop handler frame_id m"

definition CreateRunnersForHandler ::
  "WebContents \<Rightarrow> 64 word \<Rightarrow> XWalkExtensionService \<Rightarrow> effect list" where
  "CreateRunnersForHandler handler frame_id s =
     CreateRunnersForHandler_loop handler frame_id (extensions s)"

text \<open>\<^verbatim>\<open>OnRuntimeAdded\<close> (lines 131 to 134).\<close>

definition OnRuntimeAdded ::
  "Runtime \<Rightarrow> XWalkExtensionService \<Rightarrow> XWalkExtensionService \<times> effect list" where
  "OnRuntimeAdded runtime s =
     (if render_process_host s \<noteq> None then (s, CreateWebContentsHandler (web_contents runtime))
      else (s, []))"

section \<open>Clients of the service\<close>

text \<open>
  A client that registers a sequence of extensions, one call after the other, as the
  callback run by the constructor and the embedder do. It returns what each call
  returned and the service after the last call; a failed \<^verbatim>\<open>CHECK\<close> ends the run.
\<close>

fun register_all ::
  "XWalkExtension list \<Rightarrow> XWalkExtensionService \<Rightarrow> fatal + (bool list \<times> XWalkExtensionService)" where
  "register_all [] s = Inr ([], s)"
| "register_all (extension # rest) s =
     (case RegisterExtension extension s of
        Inl f \<Rightarrow> Inl f
      | Inr (ok, s', fx) \<Rightarrow>
          (case register_all rest s' of
             Inl f \<Rightarrow> Inl f
           | Inr (oks, s'') \<Rightarrow> Inr (ok # oks, s'')))"

text \<open>The extensions of a run whose registration returned true, in the order of the calls.\<close>

fun registered :: "XWalkExtension list \<Rightarrow> bool list \<Rightarrow> XWalkExtension list" where
  "registered (extension # rest) (ok # oks) =
     (if ok then extension # registered rest oks else registered rest oks)"
| "registered _ _ = []"

text \<open>
  The states the service can be in: the constructed service, and every state a member
  function returns from one of them.
\<close>

inductive reachable :: "XWalkExtensionService \<Rightarrow> bool" where
  constructed: "reachable XWalkExtensionService_new"
| registration: "reachable s \<Longrightarrow> RegisterExtension extension s = Inr (ok, s', fx) \<Longrightarrow> reachable s'"
| process_created: "reachable s \<Longrightarrow> OnRenderProcessHostCreated host runtimes s = (s', fx) \<Longrightarrow> reachable s'"
| runtime_added: "reachable s \<Longrightarrow> OnRuntimeAdded runtime s = (s', fx) \<Longrightarrow> reachable s'"
| lookup: "reachable s \<Longrightarrow> GetExtensionForName k s = (r, s') \<Longrightarrow> reachable s'"

text \<open>
  The invariant of the registry: no key occurs twice, every extension is stored under
  its own name, and every stored name passes the validator.
\<close>

definition well_formed :: "XWalkExtensionService \<Rightarrow> bool" where
  "well_formed s =
     (distinct (map fst (extensions s)) \<and>
      list_all (\<lambda>(k, extension). k = name extension \<and> ValidateExtensionName k) (extensions s))"

text \<open>What a process was told and which runners a handler received, read off the effects.\<close>

fun announcements_of :: "effect list \<Rightarrow> (RenderProcessHost \<times> string \<times> string) list" where
  "announcements_of [] = []"
| "announcements_of (Send host k api # fx) = (host, k, api) # announcements_of fx"
| "announcements_of (_ # fx) = announcements_of fx"

fun runners_of :: "effect list \<Rightarrow> XWalkExtension list" where
  "runners_of [] = []"
| "runners_of (AttachExtensionRunner handler frame_id extension # fx) = extension # runners_of fx"
| "runners_of (_ # fx) = runners_of fx"

fun handlers_of :: "effect list \<Rightarrow> WebContents list" where
  "handlers_of [] = []"
| "handlers_of (CreateForWebContents wc # fx) = wc # handlers_of fx"
| "handlers_of (_ # fx) = handlers_of fx"

section \<open>Validator and grammar\<close>

lemma alpha_not_digit: "IsAsciiAlpha c \<Longrightarrow> \<not> IsAsciiDigit c"
  by (auto simp: IsAsciiAlpha_def IsAsciiDigit_def less_eq_char_def)

lemma alpha_not_underscore: "\<not> IsAsciiAlpha (CHR ''_'')"
  by (simp add: IsAsciiAlpha_def less_eq_char_def)

lemma alpha_not_dot: "\<not> IsAsciiAlpha (CHR ''.'')"
  by (simp add: IsAsciiAlpha_def less_eq_char_def)

lemma digit_not_dot: "\<not> IsAsciiDigit (CHR ''.'')"
  by (simp add: IsAsciiDigit_def less_eq_char_def)

lemma loop_alpha:
  "IsAsciiAlpha c \<Longrightarrow>
   ValidateExtensionName_loop d u (c # cs) = ValidateExtensionName_loop True True cs"
  using alpha_not_digit [of c] alpha_not_underscore alpha_not_dot by auto

lemma loop_segment_char:
  "segment_char c \<Longrightarrow>
   ValidateExtensionName_loop True True (c # cs) = ValidateExtensionName_loop True True cs"
  using alpha_not_dot digit_not_dot by (auto simp: segment_char_def)

lemma loop_segment_chars:
  "list_all segment_char cs \<Longrightarrow>
   ValidateExtensionName_loop True True (cs @ rest) = ValidateExtensionName_loop True True rest"
proof (induction cs)
  case Nil
  show ?case by simp
next
  case (Cons c cs)
  then have "segment_char c" and "list_all segment_char cs" by simp_all
  with Cons.IH show ?case
    by (simp only: append_Cons loop_segment_char)
qed

lemma loop_segment:
  assumes "is_segment seg"
  shows "ValidateExtensionName_loop d u (seg @ rest) = ValidateExtensionName_loop True True rest"
proof (cases seg)
  case Nil
  with assms show ?thesis by simp
next
  case (Cons c cs)
  with assms have "IsAsciiAlpha c" and "list_all segment_char cs" by simp_all
  then show ?thesis
    unfolding Cons append_Cons by (simp only: loop_alpha loop_segment_chars)
qed

lemma loop_dot:
  "ValidateExtensionName_loop True True (CHR ''.'' # cs) = ValidateExtensionName_loop False False cs"
  using digit_not_dot by simp

lemma grammar_accepted:
  "segs \<noteq> [] \<Longrightarrow> list_all is_segment segs \<Longrightarrow>
   ValidateExtensionName_loop d u (join_dots segs)"
proof (induction segs arbitrary: d u rule: join_dots.induct)
  case 1
  then show ?case by simp
next
  case (2 seg)
  then have "is_segment seg" by simp
  from loop_segment [OF this, of d u "[]"] show ?case by simp
next
  case (3 seg next_seg segs)
  then have seg: "is_segment seg" and rest: "list_all is_segment (next_seg # segs)"
    by simp_all
  have "ValidateExtensionName_loop d u (join_dots (seg # next_seg # segs)) =
        ValidateExtensionName_loop True True (CHR ''.'' # join_dots (next_seg # segs))"
    using loop_segment [OF seg] by simp
  also have "\<dots> = ValidateExtensionName_loop False False (join_dots (next_seg # segs))"
    by (rule loop_dot)
  finally show ?case using "3.IH" [OF _ rest] by simp
qed

text \<open>
  The other direction reads a grammar derivation off an accepting run. After a letter
  the loop is inside a segment: the rest of the input is the rest of that segment,
  followed by the remaining segments, each behind its dot.
\<close>

lemma accepted_grammar:
  "(ValidateExtensionName_loop False False s \<longrightarrow>
      (\<exists>segs. segs \<noteq> [] \<and> list_all is_segment segs \<and> s = join_dots segs)) \<and>
   (ValidateExtensionName_loop True True s \<longrightarrow>
      (\<exists>cs. list_all segment_char cs \<and>
         (s = cs \<or> (\<exists>segs. segs \<noteq> [] \<and> list_all is_segment segs \<and>
                      s = cs @ CHR ''.'' # join_dots segs))))"
proof (induction s)
  case Nil
  show ?case by simp
next
  case (Cons c s)
  show ?case
  proof (intro conjI impI)
    assume run: "ValidateExtensionName_loop False False (c # s)"
    then have alpha: "IsAsciiAlpha c"
      by (auto split: if_splits)
    with run have "ValidateExtensionName_loop True True s"
      by (simp only: loop_alpha)
    with Cons.IH obtain cs where cs: "list_all segment_char cs"
      and shape: "s = cs \<or> (\<exists>segs. segs \<noteq> [] \<and> list_all is_segment segs \<and>
                      s = cs @ CHR ''.'' # join_dots segs)"
      by blast
    from alpha cs have seg: "is_segment (c # cs)" by simp
    from shape show "\<exists>segs. segs \<noteq> [] \<and> list_all is_segment segs \<and> c # s = join_dots segs"
    proof
      assume "s = cs"
      with seg have "[c # cs] \<noteq> [] \<and> list_all is_segment [c # cs] \<and> c # s = join_dots [c # cs]"
        by simp
      then show ?thesis by blast
    next
      assume "\<exists>segs. segs \<noteq> [] \<and> list_all is_segment segs \<and> s = cs @ CHR ''.'' # join_dots segs"
      then obtain segs where segs: "segs \<noteq> []" "list_all is_segment segs"
        and s: "s = cs @ CHR ''.'' # join_dots segs" by blast
      from segs(1) obtain t ts where ts: "segs = t # ts" by (cases segs) auto
      have "(c # cs) # segs \<noteq> [] \<and> list_all is_segment ((c # cs) # segs) \<and>
            c # s = join_dots ((c # cs) # segs)"
        using seg segs s by (simp add: ts)
      then show ?thesis by blast
    qed
  next
    assume run: "ValidateExtensionName_loop True True (c # s)"
    show "\<exists>cs. list_all segment_char cs \<and>
         (c # s = cs \<or> (\<exists>segs. segs \<noteq> [] \<and> list_all is_segment segs \<and>
                      c # s = cs @ CHR ''.'' # join_dots segs))"
    proof (cases "c = CHR ''.''")
      case True
      with run have "ValidateExtensionName_loop False False s"
        by (simp only: loop_dot)
      with Cons.IH obtain segs where "segs \<noteq> []" "list_all is_segment segs" "s = join_dots segs"
        by blast
      then have "list_all segment_char [] \<and>
         (c # s = [] \<or> (\<exists>segs. segs \<noteq> [] \<and> list_all is_segment segs \<and>
                      c # s = [] @ CHR ''.'' # join_dots segs))"
        using True by auto
      then show ?thesis by blast
    next
      case False
      with run have sc: "segment_char c"
        by (auto simp: segment_char_def split: if_splits)
      with run have "ValidateExtensionName_loop True True s"
        by (simp only: loop_segment_char)
      with Cons.IH obtain cs where cs: "list_all segment_char cs"
        and shape: "s = cs \<or> (\<exists>segs. segs \<noteq> [] \<and> list_all is_segment segs \<and>
                      s = cs @ CHR ''.'' # join_dots segs)"
        by blast
      from sc cs shape have "list_all segment_char (c # cs) \<and>
         (c # s = c # cs \<or> (\<exists>segs. segs \<noteq> [] \<and> list_all is_segment segs \<and>
                      c # s = (c # cs) @ CHR ''.'' # join_dots segs))"
        by auto
      then show ?thesis by blast
    qed
  qed
qed

text \<open>
  Claim C1. The validator accepts exactly the names of the dotted-segment grammar: a
  non-empty sequence of segments separated by single dots, each segment an ASCII letter
  followed by ASCII letters, digits or underscores. In particular \<^verbatim>\<open>com.example.foo\<close>
  and \<^verbatim>\<open>a\<close> are accepted; the empty name, \<^verbatim>\<open>com..foo\<close>, \<^verbatim>\<open>.com\<close>, \<^verbatim>\<open>com.\<close>,
  \<^verbatim>\<open>1com\<close> and \<^verbatim>\<open>com._foo\<close> are rejected.
\<close>

theorem ValidateExtensionName_grammar:
  "(\<forall>s. ValidateExtensionName s = dotted_name s) \<and>
   ValidateExtensionName ''com.example.foo'' \<and>
   ValidateExtensionName ''a'' \<and>
   \<not> ValidateExtensionName '''' \<and>
   \<not> ValidateExtensionName ''com..foo'' \<and>
   \<not> ValidateExtensionName ''.com'' \<and>
   \<not> ValidateExtensionName ''com.'' \<and>
   \<not> ValidateExtensionName ''1com'' \<and>
   \<not> ValidateExtensionName ''com._foo''"
proof -
  have "ValidateExtensionName s = dotted_name s" for s
    unfolding ValidateExtensionName_def dotted_name_def
    using accepted_grammar [of s] grammar_accepted [of _ False False] by blast
  moreover have "ValidateExtensionName ''com.example.foo''"
    by (simp add: ValidateExtensionName_def IsAsciiAlpha_def IsAsciiDigit_def less_eq_char_def)
  moreover have "ValidateExtensionName ''a''"
    by (simp add: ValidateExtensionName_def IsAsciiAlpha_def IsAsciiDigit_def less_eq_char_def)
  moreover have "\<not> ValidateExtensionName ''''"
    by (simp add: ValidateExtensionName_def)
  moreover have "\<not> ValidateExtensionName ''com..foo''"
    by (simp add: ValidateExtensionName_def IsAsciiAlpha_def IsAsciiDigit_def less_eq_char_def)
  moreover have "\<not> ValidateExtensionName ''.com''"
    by (simp add: ValidateExtensionName_def IsAsciiAlpha_def IsAsciiDigit_def less_eq_char_def)
  moreover have "\<not> ValidateExtensionName ''com.''"
    by (simp add: ValidateExtensionName_def IsAsciiAlpha_def IsAsciiDigit_def less_eq_char_def)
  moreover have "\<not> ValidateExtensionName ''1com''"
    by (simp add: ValidateExtensionName_def IsAsciiAlpha_def IsAsciiDigit_def less_eq_char_def)
  moreover have "\<not> ValidateExtensionName ''com._foo''"
    by (simp add: ValidateExtensionName_def IsAsciiAlpha_def IsAsciiDigit_def less_eq_char_def)
  ultimately show ?thesis by blast
qed

section \<open>The extension map\<close>

lemma find_None_iff: "ExtensionMap_find k m = None \<longleftrightarrow> k \<notin> fst ` set m"
proof (induction m)
  case Nil
  show ?case by simp
next
  case (Cons p m)
  obtain k' v where p: "p = (k', v)" by (cases p)
  show ?case unfolding p using Cons.IH by (cases "k = k'") simp_all
qed

lemma find_assign:
  "ExtensionMap_find k' (ExtensionMap_assign k v m) =
     (if k' = k then Some v else ExtensionMap_find k' m)"
  by (induction m) auto

lemma assign_fresh:
  "k \<notin> fst ` set m \<Longrightarrow> ExtensionMap_assign k v m = m @ [(k, v)]"
proof (induction m)
  case Nil
  show ?case by simp
next
  case (Cons p m)
  obtain k' v' where p: "p = (k', v')" by (cases p)
  from Cons.prems have "k \<noteq> k'" and "k \<notin> fst ` set m" by (auto simp: p)
  with Cons.IH show ?case unfolding p by simp
qed

lemma assign_present:
  "k \<in> fst ` set m \<Longrightarrow> map fst (ExtensionMap_assign k v m) = map fst m"
proof (induction m)
  case Nil
  then show ?case by simp
next
  case (Cons p m)
  obtain k' v' where p: "p = (k', v')" by (cases p)
  show ?case
  proof (cases "k = k'")
    case True
    then show ?thesis unfolding p by simp
  next
    case False
    with Cons.prems have "k \<in> fst ` set m" by (auto simp: p)
    with Cons.IH False show ?thesis unfolding p by simp
  qed
qed

lemma set_assign_fresh:
  "k \<notin> fst ` set m \<Longrightarrow> set (ExtensionMap_assign k v m) = insert (k, v) (set m)"
  by (simp add: assign_fresh)

lemma distinct_assign:
  assumes "distinct (map fst m)"
  shows "distinct (map fst (ExtensionMap_assign k v m))"
proof (cases "k \<in> fst ` set m")
  case True
  with assms show ?thesis by (simp add: assign_present)
next
  case False
  with assms show ?thesis by (simp add: assign_fresh)
qed

lemma filter_assign_fresh:
  "k \<notin> fst ` set m \<Longrightarrow> filter (\<lambda>p. fst p = k) (ExtensionMap_assign k v m) = [(k, v)]"
proof -
  assume fresh: "k \<notin> fst ` set m"
  then have "filter (\<lambda>p. fst p = k) m = []"
    by (auto simp: filter_empty_conv)
  with fresh show ?thesis by (simp add: assign_fresh)
qed

lemma distinct_find_mem:
  "distinct (map fst m) \<Longrightarrow> (k, v) \<in> set m \<Longrightarrow> ExtensionMap_find k m = Some v"
proof (induction m)
  case Nil
  then show ?case by simp
next
  case (Cons p m)
  obtain k' v' where p: "p = (k', v')" by (cases p)
  show ?case
  proof (cases "k = k'")
    case True
    with Cons.prems have "v = v'" by (force simp: p image_iff)
    with True show ?thesis unfolding p by simp
  next
    case False
    with Cons.prems have "distinct (map fst m)" and "(k, v) \<in> set m" by (auto simp: p)
    with Cons.IH False show ?thesis unfolding p by simp
  qed
qed

section \<open>Registration and the invariant of the registry\<close>

lemma RegisterExtension_duplicate:
  "render_process_host s = None \<Longrightarrow> ExtensionMap_find (name extension) (extensions s) \<noteq> None \<Longrightarrow>
   RegisterExtension extension s = Inr (False, s, [])"
  by (simp add: RegisterExtension_def)

lemma RegisterExtension_invalid:
  "render_process_host s = None \<Longrightarrow> ExtensionMap_find (name extension) (extensions s) = None \<Longrightarrow>
   \<not> ValidateExtensionName (name extension) \<Longrightarrow>
   RegisterExtension extension s =
     Inr (False, s, [LOG_WARNING (''Ignoring extension with invalid name: '' @ name extension)])"
  by (simp add: RegisterExtension_def)

lemma RegisterExtension_inserted:
  "render_process_host s = None \<Longrightarrow> ExtensionMap_find (name extension) (extensions s) = None \<Longrightarrow>
   ValidateExtensionName (name extension) \<Longrightarrow>
   RegisterExtension extension s =
     Inr (True, s\<lparr>extensions := ExtensionMap_assign (name extension) extension (extensions s)\<rparr>, [])"
  by (simp add: RegisterExtension_def)

lemma RegisterExtension_returned:
  assumes "RegisterExtension extension s = Inr (ok, s', fx)"
  shows "render_process_host s = None"
    and "ok \<Longrightarrow> ExtensionMap_find (name extension) (extensions s) = None"
    and "ok \<Longrightarrow> ValidateExtensionName (name extension)"
    and "ok \<Longrightarrow> s' = s\<lparr>extensions := ExtensionMap_assign (name extension) extension (extensions s)\<rparr>"
    and "\<not> ok \<Longrightarrow> s' = s"
  using assms by (auto simp: RegisterExtension_def split: if_splits)

lemma RegisterExtension_returns:
  "render_process_host s = None \<Longrightarrow>
   \<exists>ok s' fx. RegisterExtension extension s = Inr (ok, s', fx) \<and> render_process_host s' = None"
  by (auto simp: RegisterExtension_def)

lemma well_formed_assign:
  assumes "well_formed s" and "ValidateExtensionName (name extension)"
  shows "well_formed (s\<lparr>extensions := ExtensionMap_assign (name extension) extension (extensions s)\<rparr>)"
proof -
  have "list_all P (ExtensionMap_assign k v m)" if "list_all P m" and "P (k, v)" for P k v m
    using that by (induction m) auto
  with assms show ?thesis
    by (simp add: well_formed_def distinct_assign)
qed

lemma well_formed_RegisterExtension:
  assumes "RegisterExtension extension s = Inr (ok, s', fx)" and "well_formed s"
  shows "well_formed s'"
proof (cases ok)
  case True
  with RegisterExtension_returned(3,4) [OF assms(1)] assms(2) show ?thesis
    by (simp add: well_formed_assign)
next
  case False
  with RegisterExtension_returned(5) [OF assms(1)] assms(2) show ?thesis by simp
qed

lemma well_formed_key:
  "well_formed s \<Longrightarrow> (k, extension) \<in> set (extensions s) \<Longrightarrow>
   k = name extension \<and> ValidateExtensionName k"
  by (auto simp: well_formed_def list_all_iff)

lemma reachable_well_formed: "reachable s \<Longrightarrow> well_formed s"
proof (induction rule: reachable.induct)
  case constructed
  show ?case by (simp add: well_formed_def XWalkExtensionService_new_def)
next
  case (registration s extension ok s' fx)
  then show ?case by (blast intro: well_formed_RegisterExtension)
next
  case (process_created s host runtimes s' fx)
  then show ?case
    by (auto simp: OnRenderProcessHostCreated_def well_formed_def Let_def split: if_splits)
next
  case (runtime_added s runtime s' fx)
  then show ?case by (auto simp: OnRuntimeAdded_def split: if_splits)
next
  case (lookup s k r s')
  then show ?case by (auto simp: GetExtensionForName_def)
qed

lemma register_all_returns:
  "render_process_host s = None \<Longrightarrow> \<exists>oks s'. register_all extensions_list s = Inr (oks, s')"
proof (induction extensions_list arbitrary: s)
  case Nil
  show ?case by simp
next
  case (Cons extension rest)
  from RegisterExtension_returns [OF Cons.prems, of extension]
  obtain ok s1 fx where step: "RegisterExtension extension s = Inr (ok, s1, fx)"
    and unattached: "render_process_host s1 = None" by blast
  from Cons.IH [OF unattached] obtain oks s' where "register_all rest s1 = Inr (oks, s')"
    by blast
  with step show ?case by simp
qed

lemma register_all_registry:
  "register_all extensions_list s = Inr (oks, s') \<Longrightarrow> well_formed s \<Longrightarrow>
     well_formed s' \<and> render_process_host s' = render_process_host s \<and>
     extensions s' =
       extensions s @ map (\<lambda>e. (name e, e)) (registered extensions_list oks)"
proof (induction extensions_list arbitrary: s oks)
  case Nil
  then show ?case by simp
next
  case (Cons extension rest)
  from Cons.prems(1) obtain ok s1 fx oks' where
    step: "RegisterExtension extension s = Inr (ok, s1, fx)" and
    run: "register_all rest s1 = Inr (oks', s')" and oks: "oks = ok # oks'"
    by (auto split: sum.splits prod.splits)
  have wf1: "well_formed s1"
    using step Cons.prems(2) by (rule well_formed_RegisterExtension)
  note IH = Cons.IH [OF run wf1]
  show ?case
  proof (cases ok)
    case False
    with RegisterExtension_returned(5) [OF step] have "s1 = s" by simp
    with IH False oks show ?thesis by simp
  next
    case True
    have s1: "s1 = s\<lparr>extensions := ExtensionMap_assign (name extension) extension (extensions s)\<rparr>"
      using RegisterExtension_returned(4) [OF step True] .
    have fresh: "name extension \<notin> fst ` set (extensions s)"
      using RegisterExtension_returned(2) [OF step True] by (simp add: find_None_iff)
    have host1: "render_process_host s1 = render_process_host s"
      unfolding s1 by simp
    have ext1: "extensions s1 = extensions s @ [(name extension, extension)]"
      unfolding s1 using fresh by (simp add: assign_fresh)
    from IH host1 ext1 True oks show ?thesis by simp
  qed
qed

section \<open>Reading the effects\<close>

lemma announcements_loop:
  "announcements_of (RegisterExtensionsForNewHost_loop host m @ fx) =
     map (\<lambda>e. (host, name e, GetJavaScriptAPI e)) (map snd m) @ announcements_of fx"
  by (induction m) auto

lemma announcements_attach: "announcements_of (attach_existing_runtimes runtimes) = []"
  by (induction runtimes) (auto simp: CreateWebContentsHandler_def)

lemma RegisterExtensionsForNewHost_loop_map:
  "RegisterExtensionsForNewHost_loop host m =
     map (\<lambda>(k, e). Send host (name e) (GetJavaScriptAPI e)) m"
  by (induction m) auto

lemma attach_existing_runtimes_concat:
  "attach_existing_runtimes runtimes =
     concat (map (\<lambda>r. [CreateForWebContents (web_contents r), set_extension_service (web_contents r)]) runtimes)"
  by (induction runtimes) (auto simp: CreateWebContentsHandler_def)

lemma runners_loop:
  "runners_of (CreateRunnersForHandler_loop handler frame_id m) = map snd m"
  by (induction m) auto

lemma well_formed_new: "well_formed XWalkExtensionService_new"
  by (simp add: well_formed_def XWalkExtensionService_new_def)

lemma handlers_attach:
  "handlers_of (attach_existing_runtimes runtimes) = map web_contents runtimes"
  by (induction runtimes) (auto simp: CreateWebContentsHandler_def)

lemma handlers_announcements:
  "handlers_of (RegisterExtensionsForNewHost_loop host m @ fx) = handlers_of fx"
  by (induction m) auto

section \<open>The announcement of the registered extensions\<close>

text \<open>
  Claim C2. Whatever sequence of extensions is registered with the constructed service,
  every call returns, and when the first content process is created the service sends
  it one announcement, with the name and the JavaScript API, for each extension whose
  registration returned true, and the announcements stand in the order in which those
  extensions were registered.
\<close>

theorem announcements_in_registration_order:
  "\<exists>oks s. register_all extensions_list XWalkExtensionService_new = Inr (oks, s) \<and>
     announcements_of (snd (OnRenderProcessHostCreated host runtimes s)) =
       map (\<lambda>e. (host, name e, GetJavaScriptAPI e)) (registered extensions_list oks)"
proof -
  have "render_process_host XWalkExtensionService_new = None"
    by (simp add: XWalkExtensionService_new_def)
  from register_all_returns [OF this] obtain oks s where
    run: "register_all extensions_list XWalkExtensionService_new = Inr (oks, s)" by blast
  note facts = register_all_registry [OF run well_formed_new]
  have host: "render_process_host s = None"
    using facts by (simp add: XWalkExtensionService_new_def)
  have order: "map snd (extensions s) = registered extensions_list oks"
    using facts by (simp add: XWalkExtensionService_new_def comp_def)
  have "announcements_of (snd (OnRenderProcessHostCreated host runtimes s)) =
        map (\<lambda>e. (host, name e, GetJavaScriptAPI e)) (map snd (extensions s))"
    using host
    by (simp add: OnRenderProcessHostCreated_def RegisterExtensionsForNewHost_def
        announcements_loop announcements_attach)
  with run order show ?thesis by simp
qed

text \<open>
  The theorem at a run that registers \<^verbatim>\<open>b\<close>, an invalid name, \<^verbatim>\<open>a\<close> and a second
  extension named \<^verbatim>\<open>b\<close>: the process is told of \<^verbatim>\<open>b\<close> and then of \<^verbatim>\<open>a\<close>.
\<close>

theorem announcements_in_registration_order_witness:
  "register_all
     [\<lparr>address = 1, name = ''b'', GetJavaScriptAPI = ''B''\<rparr>,
      \<lparr>address = 2, name = ''1com'', GetJavaScriptAPI = ''C''\<rparr>,
      \<lparr>address = 3, name = ''a'', GetJavaScriptAPI = ''A''\<rparr>,
      \<lparr>address = 4, name = ''b'', GetJavaScriptAPI = ''other''\<rparr>]
     XWalkExtensionService_new =
   Inr ([True, False, True, False],
     \<lparr>extensions =
        [(''b'', \<lparr>address = 1, name = ''b'', GetJavaScriptAPI = ''B''\<rparr>),
         (''a'', \<lparr>address = 3, name = ''a'', GetJavaScriptAPI = ''A''\<rparr>)],
      render_process_host = None\<rparr>) \<and>
   announcements_of (snd (OnRenderProcessHostCreated 7 [\<lparr>web_contents = 1\<rparr>]
     \<lparr>extensions =
        [(''b'', \<lparr>address = 1, name = ''b'', GetJavaScriptAPI = ''B''\<rparr>),
         (''a'', \<lparr>address = 3, name = ''a'', GetJavaScriptAPI = ''A''\<rparr>)],
      render_process_host = None\<rparr>)) =
   [(7, ''b'', ''B''), (7, ''a'', ''A'')]"
proof -
  let ?b = "\<lparr>address = 1, name = ''b'', GetJavaScriptAPI = ''B''\<rparr>"
  let ?a = "\<lparr>address = 3, name = ''a'', GetJavaScriptAPI = ''A''\<rparr>"
  let ?run = "[?b, \<lparr>address = 2, name = ''1com'', GetJavaScriptAPI = ''C''\<rparr>, ?a,
      \<lparr>address = 4, name = ''b'', GetJavaScriptAPI = ''other''\<rparr>]"
  let ?s = "\<lparr>extensions = [(''b'', ?b), (''a'', ?a)], render_process_host = None\<rparr>"
  have run: "register_all ?run XWalkExtensionService_new = Inr ([True, False, True, False], ?s)"
    by (simp add: XWalkExtensionService_new_def RegisterExtension_def ValidateExtensionName_def
        IsAsciiAlpha_def IsAsciiDigit_def less_eq_char_def)
  from announcements_in_registration_order [of ?run 7 "[\<lparr>web_contents = 1\<rparr>]"]
  obtain oks s where
    same: "register_all ?run XWalkExtensionService_new = Inr (oks, s)" and
    told: "announcements_of (snd (OnRenderProcessHostCreated 7 [\<lparr>web_contents = 1\<rparr>] s)) =
       map (\<lambda>e. (7, name e, GetJavaScriptAPI e)) (registered ?run oks)"
    by blast
  from same run have oks: "oks = [True, False, True, False]" and s: "s = ?s" by simp_all
  from told have "announcements_of (snd (OnRenderProcessHostCreated 7 [\<lparr>web_contents = 1\<rparr>] ?s)) =
      [(7, ''b'', ''B''), (7, ''a'', ''A'')]"
    unfolding oks s by simp
  with run show ?thesis by simp
qed

section \<open>Registration after a content process was created\<close>

text \<open>
  Claim C3, as the code has it. Once a content process has been recorded, which is the
  case after any content-process-created event, a call of \<^verbatim>\<open>RegisterExtension\<close> fails
  \<^verbatim>\<open>CHECK(!render_process_host_)\<close> whatever the name is: the process ends, the call
  returns nothing to its caller, and the registry is not written.
\<close>

theorem RegisterExtension_after_process:
  "(render_process_host s \<noteq> None \<longrightarrow> RegisterExtension extension s = Inl CHECK_failed) \<and>
   RegisterExtension extension (fst (OnRenderProcessHostCreated host runtimes s0)) =
     Inl CHECK_failed"
  by (simp add: RegisterExtension_def OnRenderProcessHostCreated_def Let_def)

text \<open>
  The theorem at a service that has a content process, with an invalid name.
\<close>

theorem RegisterExtension_after_process_witness:
  "render_process_host \<lparr>extensions = [], render_process_host = Some 7\<rparr> \<noteq> None \<and>
   RegisterExtension \<lparr>address = 1, name = ''1com'', GetJavaScriptAPI = ''''\<rparr>
     \<lparr>extensions = [], render_process_host = Some 7\<rparr> = Inl CHECK_failed"
  using RegisterExtension_after_process
    [of "\<lparr>extensions = [], render_process_host = Some 7\<rparr>"
        "\<lparr>address = 1, name = ''1com'', GetJavaScriptAPI = ''''\<rparr>"]
  by simp

text \<open>
  A valid name registered after the first content-process-created event: the call does
  not return a rejection, it ends the process.
\<close>

theorem RegisterExtension_after_process_counterexample:
  "RegisterExtension \<lparr>address = 1, name = ''com.example.foo'', GetJavaScriptAPI = ''''\<rparr>
     (fst (OnRenderProcessHostCreated 7 [] XWalkExtensionService_new)) = Inl CHECK_failed"
  by (simp add: RegisterExtension_def OnRenderProcessHostCreated_def XWalkExtensionService_new_def Let_def)

section \<open>The first content process\<close>

text \<open>
  Claim C4. When no content process has been recorded, the handler of the
  content-process-created event records the process, then sends it one announcement for
  every entry of the registry, in the order of its iteration, and only then creates the
  handler of every runtime that exists, in the order of the runtime list: in the effects
  of the call every announcement stands before every handler creation.
\<close>

theorem first_process_created:
  "render_process_host s = None \<Longrightarrow>
   OnRenderProcessHostCreated host runtimes s =
     (s\<lparr>render_process_host := Some host\<rparr>,
      map (\<lambda>(k, e). Send host (name e) (GetJavaScriptAPI e)) (extensions s) @
      concat (map (\<lambda>r. [CreateForWebContents (web_contents r),
                         set_extension_service (web_contents r)]) runtimes))"
  by (simp add: OnRenderProcessHostCreated_def RegisterExtensionsForNewHost_def
      RegisterExtensionsForNewHost_loop_map attach_existing_runtimes_concat)

text \<open>
  The theorem at a service with one extension and two existing runtimes.
\<close>

theorem first_process_created_witness:
  "render_process_host
     \<lparr>extensions = [(''a'', \<lparr>address = 2, name = ''a'', GetJavaScriptAPI = ''A''\<rparr>)],
      render_process_host = None\<rparr> = None \<and>
   OnRenderProcessHostCreated 7 [\<lparr>web_contents = 1\<rparr>, \<lparr>web_contents = 2\<rparr>]
     \<lparr>extensions = [(''a'', \<lparr>address = 2, name = ''a'', GetJavaScriptAPI = ''A''\<rparr>)],
      render_process_host = None\<rparr> =
   (\<lparr>extensions = [(''a'', \<lparr>address = 2, name = ''a'', GetJavaScriptAPI = ''A''\<rparr>)],
      render_process_host = Some 7\<rparr>,
    [Send 7 ''a'' ''A'', CreateForWebContents 1, set_extension_service 1,
     CreateForWebContents 2, set_extension_service 2])"
  using first_process_created
    [of "\<lparr>extensions = [(''a'', \<lparr>address = 2, name = ''a'', GetJavaScriptAPI = ''A''\<rparr>)],
          render_process_host = None\<rparr>" 7 "[\<lparr>web_contents = 1\<rparr>, \<lparr>web_contents = 2\<rparr>]"]
  by simp

section \<open>Duplicate and invalid names\<close>

text \<open>
  Claim C5, as the code has it. Before any content process, for a name that passes the
  validator and is not yet in the registry: of two extensions carrying that name, the
  registration of the first returns true and the registration of the second returns
  false without a warning and leaves the service as it was; afterwards the registry
  holds exactly one entry for the name, the first extension, next to the entries it had
  before.
\<close>

theorem duplicate_registration:
  assumes "render_process_host s = None"
    and "name first = name second"
    and "ValidateExtensionName (name first)"
    and "ExtensionMap_find (name first) (extensions s) = None"
  shows "\<exists>s1. RegisterExtension first s = Inr (True, s1, []) \<and>
           RegisterExtension second s1 = Inr (False, s1, []) \<and>
           filter (\<lambda>p. fst p = name first) (extensions s1) = [(name first, first)] \<and>
           fst (GetExtensionForName (name first) s1) = Some first \<and>
           set (extensions s1) = insert (name first, first) (set (extensions s))"
proof -
  let ?s1 = "s\<lparr>extensions := ExtensionMap_assign (name first) first (extensions s)\<rparr>"
  have fresh: "name first \<notin> fst ` set (extensions s)"
    using assms(4) by (simp add: find_None_iff)
  have "RegisterExtension first s = Inr (True, ?s1, [])"
    using assms by (simp add: RegisterExtension_inserted)
  moreover have "RegisterExtension second ?s1 = Inr (False, ?s1, [])"
    using assms(1,2) by (intro RegisterExtension_duplicate) (simp_all add: find_assign)
  moreover have "filter (\<lambda>p. fst p = name first) (extensions ?s1) = [(name first, first)]"
    using fresh by (simp add: filter_assign_fresh)
  moreover have "fst (GetExtensionForName (name first) ?s1) = Some first"
    by (simp add: GetExtensionForName_def find_assign)
  moreover have "set (extensions ?s1) = insert (name first, first) (set (extensions s))"
    using fresh by (simp add: set_assign_fresh)
  ultimately show ?thesis by blast
qed

text \<open>
  The theorem at the constructed service and the name \<^verbatim>\<open>a\<close>.
\<close>

theorem duplicate_registration_witness:
  "RegisterExtension \<lparr>address = 1, name = ''a'', GetJavaScriptAPI = ''A''\<rparr>
     XWalkExtensionService_new =
     Inr (True, \<lparr>extensions = [(''a'', \<lparr>address = 1, name = ''a'', GetJavaScriptAPI = ''A''\<rparr>)],
                 render_process_host = None\<rparr>, []) \<and>
   (\<exists>s1. RegisterExtension \<lparr>address = 1, name = ''a'', GetJavaScriptAPI = ''A''\<rparr>
            XWalkExtensionService_new = Inr (True, s1, []) \<and>
          RegisterExtension \<lparr>address = 2, name = ''a'', GetJavaScriptAPI = ''other''\<rparr> s1 =
            Inr (False, s1, []) \<and>
          fst (GetExtensionForName ''a'' s1) =
            Some \<lparr>address = 1, name = ''a'', GetJavaScriptAPI = ''A''\<rparr>)"
proof -
  have valid: "ValidateExtensionName ''a''"
    by (simp add: ValidateExtensionName_def IsAsciiAlpha_def IsAsciiDigit_def less_eq_char_def)
  from duplicate_registration
    [of XWalkExtensionService_new "\<lparr>address = 1, name = ''a'', GetJavaScriptAPI = ''A''\<rparr>"
        "\<lparr>address = 2, name = ''a'', GetJavaScriptAPI = ''other''\<rparr>"]
    valid
  have "\<exists>s1. RegisterExtension \<lparr>address = 1, name = ''a'', GetJavaScriptAPI = ''A''\<rparr>
            XWalkExtensionService_new = Inr (True, s1, []) \<and>
          RegisterExtension \<lparr>address = 2, name = ''a'', GetJavaScriptAPI = ''other''\<rparr> s1 =
            Inr (False, s1, []) \<and>
          fst (GetExtensionForName ''a'' s1) =
            Some \<lparr>address = 1, name = ''a'', GetJavaScriptAPI = ''A''\<rparr>"
    by (simp add: XWalkExtensionService_new_def) blast
  moreover have "RegisterExtension \<lparr>address = 1, name = ''a'', GetJavaScriptAPI = ''A''\<rparr>
     XWalkExtensionService_new =
     Inr (True, \<lparr>extensions = [(''a'', \<lparr>address = 1, name = ''a'', GetJavaScriptAPI = ''A''\<rparr>)],
                 render_process_host = None\<rparr>, [])"
    using valid by (simp add: RegisterExtension_def XWalkExtensionService_new_def)
  ultimately show ?thesis by blast
qed

text \<open>
  Without the two conditions the first call does not succeed: a name that is already
  registered is rejected as a duplicate at the first call, and an invalid name is
  rejected by the validator.
\<close>

theorem duplicate_registration_counterexample:
  "RegisterExtension \<lparr>address = 2, name = ''a'', GetJavaScriptAPI = ''other''\<rparr>
     \<lparr>extensions = [(''a'', \<lparr>address = 1, name = ''a'', GetJavaScriptAPI = ''A''\<rparr>)],
      render_process_host = None\<rparr> =
   Inr (False,
     \<lparr>extensions = [(''a'', \<lparr>address = 1, name = ''a'', GetJavaScriptAPI = ''A''\<rparr>)],
      render_process_host = None\<rparr>, []) \<and>
   RegisterExtension \<lparr>address = 1, name = ''1com'', GetJavaScriptAPI = ''''\<rparr>
     XWalkExtensionService_new =
   Inr (False, XWalkExtensionService_new,
     [LOG_WARNING ''Ignoring extension with invalid name: 1com''])"
  by (simp add: RegisterExtension_def XWalkExtensionService_new_def ValidateExtensionName_def
      IsAsciiAlpha_def IsAsciiDigit_def less_eq_char_def)

text \<open>
  Claim C6. In every state the service can reach in which no content process has been
  recorded, registering an extension whose name the validator rejects returns false,
  leaves the service as it was, so the name is not in the registry afterwards, and
  writes a warning that carries the name to the log.
\<close>

theorem invalid_name_rejected:
  assumes "reachable s"
    and "render_process_host s = None"
    and "\<not> ValidateExtensionName (name extension)"
  shows "RegisterExtension extension s =
           Inr (False, s,
             [LOG_WARNING (''Ignoring extension with invalid name: '' @ name extension)]) \<and>
         fst (GetExtensionForName (name extension) s) = None"
proof -
  have wf: "well_formed s"
    using assms(1) by (rule reachable_well_formed)
  have "name extension \<notin> fst ` set (extensions s)"
  proof
    assume "name extension \<in> fst ` set (extensions s)"
    then obtain e where "(name extension, e) \<in> set (extensions s)" by auto
    from well_formed_key [OF wf this] assms(3) show False by simp
  qed
  then have absent: "ExtensionMap_find (name extension) (extensions s) = None"
    by (simp add: find_None_iff)
  with assms(2,3) show ?thesis
    by (simp add: RegisterExtension_invalid GetExtensionForName_def)
qed

text \<open>
  The theorem at the service that holds the extension \<^verbatim>\<open>a\<close>, with the name
  \<^verbatim>\<open>com._foo\<close>.
\<close>

theorem invalid_name_rejected_witness:
  "reachable \<lparr>extensions = [(''a'', \<lparr>address = 1, name = ''a'', GetJavaScriptAPI = ''A''\<rparr>)],
             render_process_host = None\<rparr> \<and>
   \<not> ValidateExtensionName ''com._foo'' \<and>
   RegisterExtension \<lparr>address = 2, name = ''com._foo'', GetJavaScriptAPI = ''F''\<rparr>
     \<lparr>extensions = [(''a'', \<lparr>address = 1, name = ''a'', GetJavaScriptAPI = ''A''\<rparr>)],
      render_process_host = None\<rparr> =
   Inr (False,
     \<lparr>extensions = [(''a'', \<lparr>address = 1, name = ''a'', GetJavaScriptAPI = ''A''\<rparr>)],
      render_process_host = None\<rparr>,
     [LOG_WARNING ''Ignoring extension with invalid name: com._foo''])"
proof -
  let ?a = "\<lparr>address = 1, name = ''a'', GetJavaScriptAPI = ''A''\<rparr>"
  let ?s = "\<lparr>extensions = [(''a'', ?a)], render_process_host = None\<rparr>"
  have "RegisterExtension ?a XWalkExtensionService_new = Inr (True, ?s, [])"
    by (simp add: RegisterExtension_def XWalkExtensionService_new_def ValidateExtensionName_def
        IsAsciiAlpha_def IsAsciiDigit_def less_eq_char_def)
  with reachable.constructed have reach: "reachable ?s"
    by (rule reachable.registration)
  have invalid: "\<not> ValidateExtensionName ''com._foo''"
    by (simp add: ValidateExtensionName_def IsAsciiAlpha_def IsAsciiDigit_def less_eq_char_def)
  from invalid_name_rejected
    [of ?s "\<lparr>address = 2, name = ''com._foo'', GetJavaScriptAPI = ''F''\<rparr>"] reach invalid
  show ?thesis by simp
qed

section \<open>Later events\<close>

text \<open>
  Claim C7. After a content-process-created event has been handled a content process is
  recorded, and in every state with a recorded content process a further
  content-process-created event returns the service unchanged and has no effect: no
  announcement is sent and no handler is created. So the service records a process at
  most once.
\<close>

theorem later_process_created_ignored:
  "render_process_host (fst (OnRenderProcessHostCreated first_host first_runtimes s0)) \<noteq> None \<and>
   (render_process_host s \<noteq> None \<longrightarrow>
      OnRenderProcessHostCreated host runtimes s = (s, []))"
  by (simp add: OnRenderProcessHostCreated_def Let_def)

text \<open>
  The theorem at a second event, for another process, after a first one.
\<close>

theorem later_process_created_ignored_witness:
  "render_process_host (fst (OnRenderProcessHostCreated 7 [\<lparr>web_contents = 1\<rparr>]
     \<lparr>extensions = [(''a'', \<lparr>address = 1, name = ''a'', GetJavaScriptAPI = ''A''\<rparr>)],
      render_process_host = None\<rparr>)) \<noteq> None \<and>
   OnRenderProcessHostCreated 8 [\<lparr>web_contents = 1\<rparr>, \<lparr>web_contents = 2\<rparr>]
     (fst (OnRenderProcessHostCreated 7 [\<lparr>web_contents = 1\<rparr>]
       \<lparr>extensions = [(''a'', \<lparr>address = 1, name = ''a'', GetJavaScriptAPI = ''A''\<rparr>)],
        render_process_host = None\<rparr>)) =
   (\<lparr>extensions = [(''a'', \<lparr>address = 1, name = ''a'', GetJavaScriptAPI = ''A''\<rparr>)],
      render_process_host = Some 7\<rparr>, [])"
proof -
  let ?s0 = "\<lparr>extensions = [(''a'', \<lparr>address = 1, name = ''a'', GetJavaScriptAPI = ''A''\<rparr>)],
      render_process_host = None\<rparr>"
  have first: "fst (OnRenderProcessHostCreated 7 [\<lparr>web_contents = 1\<rparr>] ?s0) =
      ?s0\<lparr>render_process_host := Some 7\<rparr>"
    by (simp add: OnRenderProcessHostCreated_def Let_def)
  from later_process_created_ignored
    [of 7 "[\<lparr>web_contents = 1\<rparr>]" ?s0 "fst (OnRenderProcessHostCreated 7 [\<lparr>web_contents = 1\<rparr>] ?s0)"
        8 "[\<lparr>web_contents = 1\<rparr>, \<lparr>web_contents = 2\<rparr>]"]
  show ?thesis unfolding first by simp
qed

text \<open>
  Claim C8. A runtime-added event leaves the service unchanged. When a content process
  has been recorded it creates the handler of the new runtime's web contents and hands
  it the service; when none has been recorded it does nothing, and the handlers are
  created by the first content-process-created event for the runtimes that exist
  then.
\<close>

theorem OnRuntimeAdded_attaches:
  "OnRuntimeAdded runtime s =
     (s, if render_process_host s \<noteq> None
         then [CreateForWebContents (web_contents runtime),
               set_extension_service (web_contents runtime)]
         else []) \<and>
   (render_process_host s = None \<longrightarrow>
      handlers_of (snd (OnRenderProcessHostCreated host runtimes s)) =
        map web_contents runtimes)"
  by (simp add: OnRuntimeAdded_def CreateWebContentsHandler_def OnRenderProcessHostCreated_def
      RegisterExtensionsForNewHost_def handlers_announcements handlers_attach)

text \<open>
  The theorem with and without a recorded content process.
\<close>

theorem OnRuntimeAdded_attaches_witness:
  "OnRuntimeAdded \<lparr>web_contents = 3\<rparr> \<lparr>extensions = [], render_process_host = Some 7\<rparr> =
     (\<lparr>extensions = [], render_process_host = Some 7\<rparr>,
      [CreateForWebContents 3, set_extension_service 3]) \<and>
   OnRuntimeAdded \<lparr>web_contents = 3\<rparr> \<lparr>extensions = [], render_process_host = None\<rparr> =
     (\<lparr>extensions = [], render_process_host = None\<rparr>, []) \<and>
   handlers_of (snd (OnRenderProcessHostCreated 7 [\<lparr>web_contents = 3\<rparr>]
     \<lparr>extensions = [], render_process_host = None\<rparr>)) = [3]"
  using OnRuntimeAdded_attaches [of "\<lparr>web_contents = 3\<rparr>" "\<lparr>extensions = [], render_process_host = Some 7\<rparr>"]
    OnRuntimeAdded_attaches [of "\<lparr>web_contents = 3\<rparr>" "\<lparr>extensions = [], render_process_host = None\<rparr>"
      7 "[\<lparr>web_contents = 3\<rparr>]"]
  by simp

section \<open>Enumerating and looking up the registry\<close>

text \<open>
  Claim C9. In a given state of the service, the runners created for a handler and a
  frame are the extensions of the registry in the order of its iteration, whatever the handler
  and the frame are, and the announcements sent to a content process are the names and
  JavaScript APIs of the same extensions in the same order.
\<close>

theorem enumerations_agree:
  "runners_of (CreateRunnersForHandler handler frame_id s) = map snd (extensions s) \<and>
   announcements_of (RegisterExtensionsForNewHost host s) =
     map (\<lambda>e. (host, name e, GetJavaScriptAPI e))
       (runners_of (CreateRunnersForHandler handler frame_id s))"
  using announcements_loop [of host "extensions s" "[]"]
  by (simp add: CreateRunnersForHandler_def RegisterExtensionsForNewHost_def runners_loop)

text \<open>
  Claim C10. A lookup of the name of an extension right after its registration returned
  true yields that extension. After any sequence of registrations with the constructed
  service, the lookup of the name of an extension whose registration returned true
  yields that extension, and the lookup of a name under which no registration returned
  true yields nothing. A lookup returns the service unchanged.
\<close>

theorem register_lookup:
  "(\<forall>s extension s' fx. RegisterExtension extension s = Inr (True, s', fx) \<longrightarrow>
      fst (GetExtensionForName (name extension) s') = Some extension) \<and>
   (\<exists>oks s. register_all extensions_list XWalkExtensionService_new = Inr (oks, s) \<and>
      (\<forall>e \<in> set (registered extensions_list oks). fst (GetExtensionForName (name e) s) = Some e) \<and>
      (\<forall>k. k \<notin> name ` set (registered extensions_list oks) \<longrightarrow>
         fst (GetExtensionForName k s) = None)) \<and>
   (\<forall>k s. snd (GetExtensionForName k s) = s)"
proof (intro conjI allI impI)
  fix s extension s' fx
  assume "RegisterExtension extension s = Inr (True, s', fx)"
  from RegisterExtension_returned(4) [OF this]
  show "fst (GetExtensionForName (name extension) s') = Some extension"
    by (simp add: GetExtensionForName_def find_assign)
next
  have "render_process_host XWalkExtensionService_new = None"
    by (simp add: XWalkExtensionService_new_def)
  from register_all_returns [OF this] obtain oks s where
    run: "register_all extensions_list XWalkExtensionService_new = Inr (oks, s)" by blast
  note facts = register_all_registry [OF run well_formed_new]
  have content: "set (extensions s) = (\<lambda>e. (name e, e)) ` set (registered extensions_list oks)"
    using facts by (simp add: XWalkExtensionService_new_def)
  from facts have "well_formed s" by blast
  then have strict: "distinct (map fst (extensions s))"
    by (simp add: well_formed_def)
  have found: "fst (GetExtensionForName (name e) s) = Some e"
    if "e \<in> set (registered extensions_list oks)" for e
  proof -
    from that content have "(name e, e) \<in> set (extensions s)" by simp
    with strict show ?thesis
      by (simp add: GetExtensionForName_def distinct_find_mem)
  qed
  have missing: "fst (GetExtensionForName k s) = None"
    if "k \<notin> name ` set (registered extensions_list oks)" for k
  proof -
    from that content have "k \<notin> fst ` set (extensions s)" by (force simp: image_iff)
    then show ?thesis by (simp add: GetExtensionForName_def find_None_iff)
  qed
  from run found missing
  show "\<exists>oks s. register_all extensions_list XWalkExtensionService_new = Inr (oks, s) \<and>
      (\<forall>e \<in> set (registered extensions_list oks). fst (GetExtensionForName (name e) s) = Some e) \<and>
      (\<forall>k. k \<notin> name ` set (registered extensions_list oks) \<longrightarrow>
         fst (GetExtensionForName k s) = None)"
    by blast
next
  fix k s
  show "snd (GetExtensionForName k s) = s"
    by (simp add: GetExtensionForName_def)
qed

text \<open>
  The theorem at a run with a valid name, an invalid name and a duplicate.
\<close>

theorem register_lookup_witness:
  "register_all
     [\<lparr>address = 1, name = ''b'', GetJavaScriptAPI = ''B''\<rparr>,
      \<lparr>address = 2, name = ''1com'', GetJavaScriptAPI = ''C''\<rparr>,
      \<lparr>address = 3, name = ''b'', GetJavaScriptAPI = ''other''\<rparr>]
     XWalkExtensionService_new =
   Inr ([True, False, False],
     \<lparr>extensions = [(''b'', \<lparr>address = 1, name = ''b'', GetJavaScriptAPI = ''B''\<rparr>)],
      render_process_host = None\<rparr>) \<and>
   fst (GetExtensionForName ''b''
     \<lparr>extensions = [(''b'', \<lparr>address = 1, name = ''b'', GetJavaScriptAPI = ''B''\<rparr>)],
      render_process_host = None\<rparr>) =
     Some \<lparr>address = 1, name = ''b'', GetJavaScriptAPI = ''B''\<rparr> \<and>
   fst (GetExtensionForName ''1com''
     \<lparr>extensions = [(''b'', \<lparr>address = 1, name = ''b'', GetJavaScriptAPI = ''B''\<rparr>)],
      render_process_host = None\<rparr>) = None"
proof -
  let ?b = "\<lparr>address = 1, name = ''b'', GetJavaScriptAPI = ''B''\<rparr>"
  let ?run = "[?b, \<lparr>address = 2, name = ''1com'', GetJavaScriptAPI = ''C''\<rparr>,
      \<lparr>address = 3, name = ''b'', GetJavaScriptAPI = ''other''\<rparr>]"
  let ?s = "\<lparr>extensions = [(''b'', ?b)], render_process_host = None\<rparr>"
  have run: "register_all ?run XWalkExtensionService_new = Inr ([True, False, False], ?s)"
    by (simp add: XWalkExtensionService_new_def RegisterExtension_def ValidateExtensionName_def
        IsAsciiAlpha_def IsAsciiDigit_def less_eq_char_def)
  from register_lookup [of ?run] obtain oks s where
    same: "register_all ?run XWalkExtensionService_new = Inr (oks, s)" and
    found: "\<forall>e \<in> set (registered ?run oks). fst (GetExtensionForName (name e) s) = Some e" and
    missing: "\<forall>k. k \<notin> name ` set (registered ?run oks) \<longrightarrow> fst (GetExtensionForName k s) = None"
    by blast
  from same run have oks: "oks = [True, False, False]" and s: "s = ?s" by simp_all
  from found have "fst (GetExtensionForName ''b'' ?s) = Some ?b"
    unfolding oks s by simp
  moreover from missing have "fst (GetExtensionForName ''1com'' ?s) = None"
    unfolding oks s by simp
  ultimately show ?thesis using run by simp
qed

end
